theory Spec2Isabelle
  imports Complex_Main "HOL-Library.Multiset"
begin

section \<open>Cards\<close>

text \<open>
  The enumerations \<^verbatim>\<open>Suit\<close> and \<^verbatim>\<open>Rank\<close> of \<^verbatim>\<open>BlackJack.py\<close>. The value of a
  rank member is the pair (label, points) written in the class body; the thirteen pairs are
  pairwise different, so the enumeration has thirteen distinct members.
\<close>

datatype Suit = HEARTS | DIAMONDS | CLUBS | SPADES

datatype Rank = ACE | TWO | THREE | FOUR | FIVE | SIX | SEVEN | EIGHT | NINE | TEN
  | JACK | QUEEN | KING

fun Rank_value :: "Rank \<Rightarrow> string \<times> int" where
  "Rank_value ACE = (''A'', 11)"
| "Rank_value TWO = (''2'', 2)"
| "Rank_value THREE = (''3'', 3)"
| "Rank_value FOUR = (''4'', 4)"
| "Rank_value FIVE = (''5'', 5)"
| "Rank_value SIX = (''6'', 6)"
| "Rank_value SEVEN = (''7'', 7)"
| "Rank_value EIGHT = (''8'', 8)"
| "Rank_value NINE = (''9'', 9)"
| "Rank_value TEN = (''10'', 10)"
| "Rank_value JACK = (''J'', 10)"
| "Rank_value QUEEN = (''Q'', 10)"
| "Rank_value KING = (''K'', 10)"

text \<open>Iterating over an enumeration yields its members in the order of definition.\<close>

definition all_suits :: "Suit list" where
  "all_suits = [HEARTS, DIAMONDS, CLUBS, SPADES]"

definition all_ranks :: "Rank list" where
  "all_ranks = [ACE, TWO, THREE, FOUR, FIVE, SIX, SEVEN, EIGHT, NINE, TEN, JACK, QUEEN, KING]"

record Card =
  suit :: Suit
  rank :: Rank

text \<open>\<^verbatim>\<open>Card.get_value\<close>: the second component of the rank's value.\<close>

definition Card_get_value :: "Card \<Rightarrow> int" where
  "Card_get_value c = snd (Rank_value (rank c))"

section \<open>Hands\<close>

text \<open>
  A \<^verbatim>\<open>Hand\<close> object has the single attribute \<^verbatim>\<open>cards\<close>, a list that \<^verbatim>\<open>add_card\<close>
  appends to.
\<close>

type_synonym Hand = "Card list"

definition add_card :: "Hand \<Rightarrow> Card \<Rightarrow> Hand" where
  "add_card h c = h @ [c]"

text \<open>
  \<^verbatim>\<open>Hand.get_value\<close> runs two loops. The first walks the cards and keeps the running
  \<^verbatim>\<open>value\<close> and the number of \<^verbatim>\<open>aces\<close>; the second subtracts 10 and gives up one
  ace while the value is over 21 and an ace is left.
\<close>

fun sum_loop :: "Card list \<Rightarrow> int \<Rightarrow> int \<Rightarrow> int \<times> int" where
  "sum_loop [] v aces = (v, aces)"
| "sum_loop (c # rest) v aces =
     sum_loop rest (v + Card_get_value c) (if rank c = ACE then aces + 1 else aces)"

function adjust_loop :: "int \<Rightarrow> int \<Rightarrow> int" where
  "adjust_loop v aces = (if v > 21 \<and> aces > 0 then adjust_loop (v - 10) (aces - 1) else v)"
  by pat_completeness auto
termination
  by (relation "measure (\<lambda>(v, aces). nat aces)") auto

declare adjust_loop.simps [simp del]

definition get_value :: "Hand \<Rightarrow> int" where
  "get_value h = (case sum_loop h 0 0 of (v, aces) \<Rightarrow> adjust_loop v aces)"

definition is_blackjack :: "Hand \<Rightarrow> bool" where
  "is_blackjack h \<longleftrightarrow> length h = 2 \<and> get_value h = 21"

definition is_bust :: "Hand \<Rightarrow> bool" where
  "is_bust h \<longleftrightarrow> get_value h > 21"

subsection \<open>The scoring rule as the specification words it\<close>

text \<open>
  The base value of a card by kind of rank: an Ace counts 11, a face card 10, a number card
  its face value.
\<close>

definition is_face :: "Rank \<Rightarrow> bool" where
  "is_face r \<longleftrightarrow> r = JACK \<or> r = QUEEN \<or> r = KING"

fun face_number :: "Rank \<Rightarrow> int" where
  "face_number TWO = 2"
| "face_number THREE = 3"
| "face_number FOUR = 4"
| "face_number FIVE = 5"
| "face_number SIX = 6"
| "face_number SEVEN = 7"
| "face_number EIGHT = 8"
| "face_number NINE = 9"
| "face_number TEN = 10"
| "face_number r = 0"

definition base_value :: "Card \<Rightarrow> int" where
  "base_value c =
     (if rank c = ACE then 11 else if is_face (rank c) then 10
      else face_number (rank c))"

definition base_total :: "Hand \<Rightarrow> int" where
  "base_total h = sum_list (map base_value h)"

definition ace_count :: "Hand \<Rightarrow> nat" where
  "ace_count h = length (filter (\<lambda>c. rank c = ACE) h)"

definition non_ace_total :: "Hand \<Rightarrow> int" where
  "non_ace_total h = sum_list (map base_value (filter (\<lambda>c. rank c \<noteq> ACE) h))"

text \<open>
  The number of Aces counted as 1: the least \<open>k\<close> that brings the total to 21 or below, or
  all of them when no such \<open>k\<close> exists.
\<close>

definition demoted :: "Hand \<Rightarrow> nat" where
  "demoted h = min (ace_count h) (nat ((base_total h - 21 + 9) div 10))"

definition spec_value :: "Hand \<Rightarrow> int" where
  "spec_value h = base_total h - 10 * int (demoted h)"

text \<open>The hard total counts every Ace as 1.\<close>

definition hard_total :: "Hand \<Rightarrow> int" where
  "hard_total h = base_total h - 10 * int (ace_count h)"

section \<open>Amounts of money\<close>

text \<open>
  The balance and the bet are Python floats: \<^verbatim>\<open>place_bet\<close> reads the bet with
  \<^verbatim>\<open>float(input(...))\<close>, which yields a finite number, an infinity or a NaN. The model
  keeps these four kinds of value apart. A finite value carries the real number it
  stands for. Python floats are IEEE 754 binary64 numbers: the sum and the product of
  two finite values are the exact results rounded to the nearest binary64 number, ties
  to the even significand, and a rounded magnitude of \<open>2 ^ 1024\<close> or more is an infinity.
  A NaN operand gives NaN, \<open>inf - inf\<close> and \<open>0 * inf\<close> are NaN, and every comparison
  with a NaN operand is false. The sign of zero is not modelled. The type has finite
  values that are not binary64 numbers; the program never holds one, so the model has
  more states than the program and none fewer.
\<close>

datatype pyfloat = Fin real | PInf | NInf | NaN

text \<open>
  Rounding a positive real \<open>a\<close> to binary64: the exponent is that of \<open>a\<close>, but not below
  the least normal exponent \<open>-1022\<close>; the unit in the last place is 52 binary places
  further down; \<open>a\<close> is rounded to a whole number of units.
\<close>

definition round_half_even :: "real \<Rightarrow> int" where
  "round_half_even m =
     (let f = \<lfloor>m\<rfloor>; d = m - of_int f
      in if d < 1 / 2 then f else if 1 / 2 < d then f + 1
         else if even f then f else f + 1)"

definition binary64_exponent :: "real \<Rightarrow> int" where
  "binary64_exponent a = max (- 1022) \<lfloor>log 2 a\<rfloor>"

definition round64_magnitude :: "real \<Rightarrow> real" where
  "round64_magnitude a =
     (let ulp = 2 powr (of_int (binary64_exponent a) - 52)
      in of_int (round_half_even (a / ulp)) * ulp)"

definition round64 :: "real \<Rightarrow> pyfloat" where
  "round64 x =
     (if x = 0 then Fin 0
      else let y = round64_magnitude \<bar>x\<bar>
           in if 2 ^ 1024 \<le> y then (if 0 < x then PInf else NInf)
              else Fin (sgn x * y))"

fun fneg :: "pyfloat \<Rightarrow> pyfloat" where
  "fneg (Fin a) = Fin (- a)"
| "fneg PInf = NInf"
| "fneg NInf = PInf"
| "fneg NaN = NaN"

fun fadd :: "pyfloat \<Rightarrow> pyfloat \<Rightarrow> pyfloat" where
  "fadd (Fin a) (Fin b) = round64 (a + b)"
| "fadd NaN y = NaN"
| "fadd x NaN = NaN"
| "fadd PInf NInf = NaN"
| "fadd NInf PInf = NaN"
| "fadd PInf y = PInf"
| "fadd x PInf = PInf"
| "fadd NInf y = NInf"
| "fadd x NInf = NInf"

definition fsub :: "pyfloat \<Rightarrow> pyfloat \<Rightarrow> pyfloat" where
  "fsub x y = fadd x (fneg y)"

definition scale_inf :: "pyfloat \<Rightarrow> real \<Rightarrow> pyfloat" where
  "scale_inf x a = (if 0 < a then x else if a < 0 then fneg x else NaN)"

fun fmul :: "pyfloat \<Rightarrow> pyfloat \<Rightarrow> pyfloat" where
  "fmul (Fin a) (Fin b) = round64 (a * b)"
| "fmul NaN y = NaN"
| "fmul x NaN = NaN"
| "fmul PInf (Fin b) = scale_inf PInf b"
| "fmul NInf (Fin b) = scale_inf NInf b"
| "fmul (Fin a) PInf = scale_inf PInf a"
| "fmul (Fin a) NInf = scale_inf NInf a"
| "fmul PInf PInf = PInf"
| "fmul NInf NInf = PInf"
| "fmul PInf NInf = NInf"
| "fmul NInf PInf = NInf"

fun flt :: "pyfloat \<Rightarrow> pyfloat \<Rightarrow> bool" where
  "flt (Fin a) (Fin b) = (a < b)"
| "flt NaN y = False"
| "flt x NaN = False"
| "flt x NInf = False"
| "flt PInf y = False"
| "flt NInf y = True"
| "flt x PInf = True"

fun fle :: "pyfloat \<Rightarrow> pyfloat \<Rightarrow> bool" where
  "fle (Fin a) (Fin b) = (a \<le> b)"
| "fle NaN y = False"
| "fle x NaN = False"
| "fle NInf y = True"
| "fle x PInf = True"
| "fle x NInf = False"
| "fle PInf y = False"

text \<open>\<^verbatim>\<open>x > y\<close> and \<^verbatim>\<open>x >= y\<close>.\<close>

definition fgt :: "pyfloat \<Rightarrow> pyfloat \<Rightarrow> bool" where
  "fgt x y = flt y x"

definition fge :: "pyfloat \<Rightarrow> pyfloat \<Rightarrow> bool" where
  "fge x y = fle y x"

section \<open>Errors and the console\<close>

text \<open>
  The exceptions the game can raise: \<^verbatim>\<open>list.pop\<close> on an empty list, \<^verbatim>\<open>input\<close> at the
  end of the input, and a method call on a hand that is still \<^verbatim>\<open>None\<close>.
\<close>

datatype error = IndexError | EOFError | AttributeError

definition bind_result :: "error + 'a \<Rightarrow> ('a \<Rightarrow> error + 'b) \<Rightarrow> error + 'b" where
  "bind_result r f = (case r of Inl e \<Rightarrow> Inl e | Inr x \<Rightarrow> f x)"

text \<open>
  The console is the list of lines still to be read; \<^verbatim>\<open>input\<close> takes the first one.
  The program looks at a line only through \<^verbatim>\<open>float(line)\<close> (at the bet prompt) and
  \<^verbatim>\<open>line.upper()\<close> (at the action prompt), so a line is given by these two readings:
  \<open>as_float\<close> is \<open>None\<close> when \<^verbatim>\<open>float\<close> raises \<^verbatim>\<open>ValueError\<close>. Printing is not
  modelled.
\<close>

record line =
  as_float :: "pyfloat option"
  as_upper :: string

section \<open>The deck\<close>

text \<open>
  \<^verbatim>\<open>random.shuffle\<close> is a parameter of the model: a function from the state of the
  random generator and a list to the shuffled list and the next state. The deck record
  carries the generator state in the field \<open>rng\<close> next to the two attributes of the
  class.
\<close>

type_synonym shuffle = "nat \<Rightarrow> Card list \<Rightarrow> Card list \<times> nat"

record Deck =
  cards :: "Card list"
  num_decks :: int
  rng :: nat

definition full_set :: "Card list" where
  "full_set = concat (map (\<lambda>s. map (\<lambda>r. \<lparr>suit = s, rank = r\<rparr>) all_ranks) all_suits)"

definition reset :: "shuffle \<Rightarrow> Deck \<Rightarrow> Deck" where
  "reset sh d =
     (case sh (rng d) (concat (replicate (nat (num_decks d)) full_set)) of
        (cs, r) \<Rightarrow> d\<lparr>cards := cs, rng := r\<rparr>)"

definition Deck_init :: "shuffle \<Rightarrow> nat \<Rightarrow> int \<Rightarrow> Deck" where
  "Deck_init sh r n = reset sh \<lparr>cards = [], num_decks = n, rng = r\<rparr>"

definition deal_card :: "shuffle \<Rightarrow> Deck \<Rightarrow> error + (Card \<times> Deck)" where
  "deal_card sh d =
     (let d' = (if length (cards d) < 10 then reset sh d else d)
      in if cards d' = [] then Inl IndexError
         else Inr (last (cards d'), d'\<lparr>cards := butlast (cards d')\<rparr>))"

text \<open>A run of \<open>n\<close> calls of \<^verbatim>\<open>deal_card\<close> on the same deck.\<close>

fun deal_cards :: "shuffle \<Rightarrow> Deck \<Rightarrow> nat \<Rightarrow> error + (Card list \<times> Deck)" where
  "deal_cards sh d 0 = Inr ([], d)"
| "deal_cards sh d (Suc n) =
     bind_result (deal_card sh d) (\<lambda>(c, d').
       bind_result (deal_cards sh d' n) (\<lambda>(cs, d''). Inr (c # cs, d'')))"

text \<open>What the model asks of \<^verbatim>\<open>random.shuffle\<close>: the result is a permutation.\<close>

definition is_shuffle :: "shuffle \<Rightarrow> bool" where
  "is_shuffle sh \<longleftrightarrow> (\<forall>r xs. mset (fst (sh r xs)) = mset xs)"

section \<open>The game\<close>

text \<open>
  The state of a \<^verbatim>\<open>BlackjackGame\<close> object and its methods up to \<^verbatim>\<open>play_hand\<close>, one
  round. The session loops \<^verbatim>\<open>play_game\<close> and \<^verbatim>\<open>main\<close> around it only ask whether
  to go on and are left out.
\<close>

record BlackjackGame =
  deck :: Deck
  player_balance :: pyfloat
  player_hand :: "Hand option"
  dealer_hand :: "Hand option"
  current_bet :: pyfloat
  game_over :: bool

definition BlackjackGame_init :: "shuffle \<Rightarrow> nat \<Rightarrow> pyfloat \<Rightarrow> BlackjackGame" where
  "BlackjackGame_init sh r balance =
     \<lparr>deck = Deck_init sh r 6, player_balance = balance, player_hand = None,
      dealer_hand = None, current_bet = Fin 0, game_over = False\<rparr>"

fun place_bet :: "BlackjackGame \<Rightarrow> line list \<Rightarrow> error + (BlackjackGame \<times> line list)" where
  "place_bet g [] = Inl EOFError"
| "place_bet g (l # rest) =
     (case as_float l of
        None \<Rightarrow> place_bet g rest
      | Some bet \<Rightarrow>
          if fle bet (Fin 0) \<or> fgt bet (player_balance g) then place_bet g rest
          else Inr (g\<lparr>current_bet := bet, player_balance := fsub (player_balance g) bet\<rparr>,
                    rest))"

text \<open>
  The statement \<^verbatim>\<open>self.player_hand.add_card(self.deck.deal_card())\<close> and its twin for
  the dealer: the hand is looked up first, then the card is dealt, then appended.
\<close>

definition hit_player :: "shuffle \<Rightarrow> BlackjackGame \<Rightarrow> error + BlackjackGame" where
  "hit_player sh g =
     (case player_hand g of
        None \<Rightarrow> Inl AttributeError
      | Some h \<Rightarrow>
          bind_result (deal_card sh (deck g)) (\<lambda>(c, d).
            Inr (g\<lparr>deck := d, player_hand := Some (add_card h c)\<rparr>)))"

definition hit_dealer :: "shuffle \<Rightarrow> BlackjackGame \<Rightarrow> error + BlackjackGame" where
  "hit_dealer sh g =
     (case dealer_hand g of
        None \<Rightarrow> Inl AttributeError
      | Some h \<Rightarrow>
          bind_result (deal_card sh (deck g)) (\<lambda>(c, d).
            Inr (g\<lparr>deck := d, dealer_hand := Some (add_card h c)\<rparr>)))"

definition deal_initial_hands :: "shuffle \<Rightarrow> BlackjackGame \<Rightarrow> error + BlackjackGame" where
  "deal_initial_hands sh g =
     bind_result (hit_player sh (g\<lparr>player_hand := Some [], dealer_hand := Some []\<rparr>))
       (\<lambda>g1. bind_result (hit_dealer sh g1)
         (\<lambda>g2. bind_result (hit_player sh g2) (hit_dealer sh)))"

definition check_initial_blackjack :: "BlackjackGame \<Rightarrow> error + (BlackjackGame \<times> bool)" where
  "check_initial_blackjack g =
     (case (player_hand g, dealer_hand g) of
        (Some ph, Some dh) \<Rightarrow>
          (let player_bj = is_blackjack ph; dealer_bj = is_blackjack dh
           in if player_bj \<and> dealer_bj then
                Inr (g\<lparr>player_balance := fadd (player_balance g) (current_bet g)\<rparr>, True)
              else if player_bj then
                Inr (g\<lparr>player_balance :=
                         fadd (player_balance g) (fmul (current_bet g) (Fin 2.5))\<rparr>, True)
              else if dealer_bj then Inr (g, True)
              else Inr (g, False))
      | _ \<Rightarrow> Inl AttributeError)"

fun player_turn ::
  "shuffle \<Rightarrow> BlackjackGame \<Rightarrow> line list \<Rightarrow> error + (BlackjackGame \<times> line list)" where
  "player_turn sh g ls =
     (case (player_hand g, dealer_hand g) of
        (Some ph, Some dh) \<Rightarrow>
          if is_bust ph then Inr (g, ls)
          else (case ls of
             [] \<Rightarrow> Inl EOFError
           | l # rest \<Rightarrow>
               if as_upper l = ''H'' then
                 bind_result (hit_player sh g) (\<lambda>g'. player_turn sh g' rest)
               else if as_upper l = ''S'' then Inr (g, rest)
               else if as_upper l = ''D'' then
                 if length ph = 2 \<and> fge (player_balance g) (current_bet g) then
                   bind_result
                     (hit_player sh
                        (g\<lparr>player_balance := fsub (player_balance g) (current_bet g),
                           current_bet := fmul (current_bet g) (Fin 2)\<rparr>))
                     (\<lambda>g'. Inr (g', rest))
                 else player_turn sh g rest
               else player_turn sh g rest)
      | _ \<Rightarrow> Inl AttributeError)"

declare player_turn.simps [simp del]

text \<open>
  The dealer's loop has no bound in the source, so the model is a partial function:
  \<open>None\<close> is a run that never returns.
\<close>

partial_function (option) dealer_turn ::
  "shuffle \<Rightarrow> BlackjackGame \<Rightarrow> (error + BlackjackGame) option" where
  "dealer_turn sh g =
     (case dealer_hand g of
        None \<Rightarrow> Some (Inl AttributeError)
      | Some dh \<Rightarrow>
          if get_value dh < 17 then
            (case hit_dealer sh g of
               Inl e \<Rightarrow> Some (Inl e)
             | Inr g' \<Rightarrow> dealer_turn sh g')
          else Some (Inr g))"

definition determine_winner :: "BlackjackGame \<Rightarrow> error + BlackjackGame" where
  "determine_winner g =
     (case (player_hand g, dealer_hand g) of
        (Some ph, Some dh) \<Rightarrow>
          (let player_value = get_value ph; dealer_value = get_value dh
           in if is_bust ph then Inr g
              else if is_bust dh then
                Inr (g\<lparr>player_balance :=
                         fadd (player_balance g) (fmul (current_bet g) (Fin 2))\<rparr>)
              else if player_value > dealer_value then
                Inr (g\<lparr>player_balance :=
                         fadd (player_balance g) (fmul (current_bet g) (Fin 2))\<rparr>)
              else if player_value < dealer_value then Inr g
              else Inr (g\<lparr>player_balance := fadd (player_balance g) (current_bet g)\<rparr>))
      | _ \<Rightarrow> Inl AttributeError)"

definition play_hand ::
  "shuffle \<Rightarrow> BlackjackGame \<Rightarrow> line list \<Rightarrow> (error + (BlackjackGame \<times> line list)) option"
  where
  "play_hand sh g ls =
     (case place_bet g ls of
        Inl e \<Rightarrow> Some (Inl e)
      | Inr (g0, ls0) \<Rightarrow>
     (case deal_initial_hands sh g0 of
        Inl e \<Rightarrow> Some (Inl e)
      | Inr g1 \<Rightarrow>
     (case check_initial_blackjack g1 of
        Inl e \<Rightarrow> Some (Inl e)
      | Inr (g2, ended) \<Rightarrow>
          if ended then Some (Inr (g2, ls0))
          else
     (case player_turn sh g2 ls0 of
        Inl e \<Rightarrow> Some (Inl e)
      | Inr (g3, ls3) \<Rightarrow>
     (case player_hand g3 of
        None \<Rightarrow> Some (Inl AttributeError)
      | Some ph \<Rightarrow>
          if \<not> is_bust ph then
            (case dealer_turn sh g3 of
               None \<Rightarrow> None
             | Some (Inl e) \<Rightarrow> Some (Inl e)
             | Some (Inr g4) \<Rightarrow>
                 Some (bind_result (determine_winner g4) (\<lambda>g5. Inr (g5, ls3))))
          else Some (bind_result (determine_winner g3) (\<lambda>g5. Inr (g5, ls3))))))))"

section \<open>Example data\<close>

text \<open>
  Concrete data for the examples: a shuffle that reverses the list, and the constructor
  of \<^verbatim>\<open>Card\<close>.
\<close>

definition rev_shuffle :: shuffle where
  "rev_shuffle r xs = (rev xs, Suc r)"

definition Card_init :: "Suit \<Rightarrow> Rank \<Rightarrow> Card" where
  "Card_init s r = \<lparr>suit = s, rank = r\<rparr>"

text \<open>
  A game with balance 100 and no hands yet, whose shoe holds the given cards; the last
  card of the list is dealt first.
\<close>

definition example_game :: "Card list \<Rightarrow> BlackjackGame" where
  "example_game cs =
     \<lparr>deck = \<lparr>cards = cs, num_decks = 6, rng = 0\<rparr>, player_balance = Fin 100,
      player_hand = None, dealer_hand = None, current_bet = Fin 0, game_over = False\<rparr>"

definition filler :: "Card list" where
  "filler =
     [Card_init CLUBS TWO, Card_init CLUBS TWO, Card_init CLUBS TWO, Card_init CLUBS TWO,
      Card_init CLUBS TWO, Card_init CLUBS TWO, Card_init CLUBS TWO, Card_init CLUBS TWO,
      Card_init CLUBS TWO, Card_init CLUBS TWO]"

text \<open>
  Three shoes. From the first the player is dealt Ace, King and the dealer 9, 7. From
  the second the player is dealt King, 9 and the dealer 7, 5, and the next card is a
  Queen. From the third the player is dealt 5, 6 and the dealer 10, 6, and the next
  card is a 10.
\<close>

definition shoe_natural :: "Card list" where
  "shoe_natural = filler @
     [Card_init CLUBS SEVEN, Card_init HEARTS KING, Card_init DIAMONDS NINE,
      Card_init SPADES ACE]"

definition shoe_bust :: "Card list" where
  "shoe_bust = filler @
     [Card_init HEARTS QUEEN, Card_init CLUBS FIVE, Card_init DIAMONDS NINE,
      Card_init CLUBS SEVEN, Card_init SPADES KING]"

definition shoe_double :: "Card list" where
  "shoe_double = filler @
     [Card_init DIAMONDS TEN, Card_init CLUBS SIX, Card_init SPADES SIX,
      Card_init CLUBS TEN, Card_init HEARTS FIVE]"

text \<open>Lines typed at the console: the number 10, the letters h, s and d, and \<^verbatim>\<open>nan\<close>.\<close>

definition line_10 :: line where
  "line_10 = \<lparr>as_float = Some (Fin 10), as_upper = ''10''\<rparr>"

definition line_h :: line where
  "line_h = \<lparr>as_float = None, as_upper = ''H''\<rparr>"

definition line_s :: line where
  "line_s = \<lparr>as_float = None, as_upper = ''S''\<rparr>"

definition line_d :: line where
  "line_d = \<lparr>as_float = None, as_upper = ''D''\<rparr>"

definition line_nan :: line where
  "line_nan = \<lparr>as_float = Some NaN, as_upper = ''NAN''\<rparr>"

section \<open>Rounding\<close>

text \<open>
  A whole number below \<open>2 ^ 53\<close> in magnitude is a binary64 number and rounds to
  itself, and a number at or above 0 rounds to a value at or above 0.
\<close>

lemma round_half_even_of_int: "round_half_even (of_int k) = k"
  by (simp add: round_half_even_def)

lemma round_half_even_nonneg: "0 \<le> m \<Longrightarrow> 0 \<le> round_half_even m"
  by (auto simp: round_half_even_def Let_def)

lemma round64_magnitude_nonneg: "0 \<le> a \<Longrightarrow> 0 \<le> round64_magnitude a"
  by (simp add: round64_magnitude_def Let_def round_half_even_nonneg)

lemma binary64_exponent_small:
  assumes "1 \<le> a" and "a < 2 ^ 53"
  shows "binary64_exponent a \<le> 52"
proof -
  have "log 2 a < 53"
    using assms by (simp add: log_less_iff powr_realpow [symmetric])
  then have "\<lfloor>log 2 a\<rfloor> \<le> 52"
    by linarith
  then show ?thesis
    by (simp add: binary64_exponent_def)
qed

lemma magnitude_exact:
  assumes "e \<le> 52"
  shows "of_int (round_half_even (of_int n / 2 powr (of_int e - 52))) * 2 powr (of_int e - 52)
    = (of_int n :: real)"
proof -
  from assms obtain k :: nat where k: "e - 52 = - int k"
    by (metis add.inverse_inverse diff_le_0_iff_le nonneg_int_cases neg_0_le_iff_le)
  have u: "2 powr (of_int e - 52) = 1 / (2::real) ^ k"
  proof -
    have "of_int e - 52 = (- real k)"
      using k by (metis of_int_diff of_int_minus of_int_numeral of_int_of_nat_eq)
    then show ?thesis
      by (simp add: powr_minus powr_realpow divide_simps)
  qed
  have "of_int n / (1 / (2::real) ^ k) = of_int (n * 2 ^ k)"
    by simp
  then show ?thesis
    unfolding u by (simp only: round_half_even_of_int) simp
qed

lemma round64_exact:
  assumes "x \<in> \<int>" and "\<bar>x\<bar> < 2 ^ 53"
  shows "round64 x = Fin x"
proof (cases "x = 0")
  case True
  then show ?thesis by (simp add: round64_def)
next
  case False
  from assms(1) obtain n :: int where n: "x = of_int n"
    by (auto elim: Ints_cases)
  with False have "n \<noteq> 0" by auto
  then have "1 \<le> \<bar>n\<bar>"
    by linarith
  then have "(1::real) \<le> of_int \<bar>n\<bar>"
    using of_int_le_iff [of 1 "\<bar>n\<bar>", where 'a = real] by simp
  have ax: "\<bar>x\<bar> = of_int \<bar>n\<bar>"
    by (simp add: n)
  from \<open>(1::real) \<le> of_int \<bar>n\<bar>\<close> have one: "1 \<le> \<bar>x\<bar>"
    by (simp only: ax)
  have "round64_magnitude \<bar>x\<bar> = \<bar>x\<bar>"
    unfolding round64_magnitude_def Let_def ax
    by (rule magnitude_exact) (use binary64_exponent_small [OF one assms(2)] ax in simp)
  moreover have "\<bar>x\<bar> < 2 ^ 1024"
    using assms(2) by (rule less_trans) simp
  moreover have "sgn x * \<bar>x\<bar> = x"
    by (simp add: sgn_mult_abs)
  ultimately show ?thesis
    using False by (simp add: round64_def Let_def)
qed

lemma round64_nonneg:
  assumes "0 \<le> x"
  shows "round64 x = PInf \<or> (\<exists>z. 0 \<le> z \<and> round64 x = Fin z)"
proof (cases "x = 0")
  case True
  then show ?thesis by (simp add: round64_def)
next
  case False
  with assms have "0 < x" by simp
  moreover have "0 \<le> round64_magnitude \<bar>x\<bar>"
    by (simp add: round64_magnitude_nonneg)
  ultimately show ?thesis
    by (simp add: round64_def Let_def)
qed

section \<open>Scoring\<close>

lemma Card_get_value_base: "Card_get_value c = base_value c"
  by (cases "rank c") (simp_all add: Card_get_value_def base_value_def is_face_def)

lemma sum_loop_eq:
  "sum_loop h v aces =
     (v + base_total h, aces + int (ace_count h))"
  by (induction h arbitrary: v aces)
     (simp_all add: base_total_def ace_count_def Card_get_value_base)

lemma get_value_adjust: "get_value h = adjust_loop (base_total h) (int (ace_count h))"
  by (simp add: get_value_def sum_loop_eq)

lemma adjust_step:
  fixes v aces q :: int
  assumes "1 \<le> q"
  shows "v - 10 - 10 * min (aces - 1) (max 0 (q - 1)) = v - 10 * min aces (max 0 q)"
proof -
  have "max 0 (q - 1) = q - 1" "max 0 q = q"
    using assms by simp_all
  moreover have "min (aces - 1) (q - 1) = min aces q - 1"
    by simp
  ultimately show ?thesis
    by (simp add: algebra_simps)
qed

lemma int_min_nat:
  fixes q :: int
  shows "int (min n (nat q)) = min (int n) (max 0 q)"
  by (cases "0 \<le> q") simp_all

lemma adjust_loop_closed:
  "0 \<le> aces \<Longrightarrow> adjust_loop v aces = v - 10 * min aces (max 0 ((v - 21 + 9) div 10))"
proof (induction v aces rule: adjust_loop.induct)
  case (1 v aces)
  show ?case
  proof (cases "v > 21 \<and> aces > 0")
    case True
    have shift: "(v - 10 - 21 + 9) div 10 = (v - 21 + 9) div 10 - 1"
      by presburger
    have pos: "1 \<le> (v - 21 + 9) div 10"
      using True by presburger
    have "adjust_loop v aces = adjust_loop (v - 10) (aces - 1)"
      using True by (subst adjust_loop.simps) simp
    also have "\<dots> = (v - 10) - 10 * min (aces - 1) (max 0 ((v - 10 - 21 + 9) div 10))"
      using "1.IH" True by simp
    also have "\<dots> = v - 10 * min aces (max 0 ((v - 21 + 9) div 10))"
      unfolding shift using pos by (rule adjust_step)
    finally show ?thesis .
  next
    case False
    have "v \<le> 21 \<Longrightarrow> (v - 21 + 9) div 10 \<le> 0"
      by presburger
    with False "1.prems" show ?thesis
      by (subst adjust_loop.simps) (auto simp: min_def max_def)
  qed
qed

lemma get_value_spec_value: "get_value h = spec_value h"
proof -
  have "int (min (ace_count h) (nat ((base_total h - 21 + 9) div 10))) =
        min (int (ace_count h)) (max 0 ((base_total h - 21 + 9) div 10))"
    by (rule int_min_nat)
  then show ?thesis
    by (simp add: get_value_adjust adjust_loop_closed spec_value_def demoted_def)
qed

lemma base_total_split: "base_total h = 11 * int (ace_count h) + non_ace_total h"
  by (induction h) (simp_all add: base_total_def ace_count_def non_ace_total_def base_value_def)

lemma base_value_bounds: "2 \<le> base_value c \<and> base_value c \<le> 11"
  by (cases "rank c") (simp_all add: base_value_def is_face_def)

lemma demoted_le: "demoted h \<le> ace_count h"
  by (simp add: demoted_def)

lemma div10_enough:
  fixes t :: int
  shows "t - 10 * max 0 ((t - 21 + 9) div 10) \<le> 21"
proof (cases "0 \<le> (t - 21 + 9) div 10")
  case True
  have "t - 10 * ((t - 21 + 9) div 10) \<le> 21"
    by presburger
  with True show ?thesis by simp
next
  case False
  then have "t \<le> 21"
    by presburger
  with False show ?thesis by simp
qed

lemma div10_needed:
  fixes t j :: int
  assumes "j + 1 \<le> (t - 21 + 9) div 10"
  shows "21 < t - 10 * j"
  using assms by presburger

lemma demoted_enough:
  "base_total h - 10 * int (demoted h) \<le> 21 \<or> demoted h = ace_count h"
proof (cases "ace_count h \<le> nat ((base_total h - 21 + 9) div 10)")
  case True
  then show ?thesis by (simp add: demoted_def)
next
  case False
  then have "int (demoted h) = max 0 ((base_total h - 21 + 9) div 10)"
    by (simp add: demoted_def)
  then show ?thesis
    using div10_enough [of "base_total h"] by simp
qed

lemma demoted_needed:
  assumes "j < demoted h"
  shows "21 < base_total h - 10 * int j"
proof -
  from assms have "j < nat ((base_total h - 21 + 9) div 10)"
    by (simp add: demoted_def)
  then have "int j + 1 \<le> (base_total h - 21 + 9) div 10"
    by linarith
  then show ?thesis
    by (rule div10_needed)
qed

lemma adjust_loop_0: "adjust_loop v 0 = v"
  by (subst adjust_loop.simps) simp

lemma adjust_loop_1: "adjust_loop v 1 = (if 21 < v then v - 10 else v)"
  by (subst adjust_loop.simps) (simp add: adjust_loop_0)

lemma get_value_one_ace:
  assumes "ace_count h = 1"
  shows "get_value h =
    (if non_ace_total h + 11 \<le> 21 then non_ace_total h + 11 else non_ace_total h + 1)"
  using assms by (simp add: get_value_adjust base_total_split adjust_loop_1)

lemma get_value_two_aces:
  assumes "rank c1 = ACE" "rank c2 = ACE"
  shows "get_value [c1, c2] = 12"
  using assms
  by (simp add: get_value_spec_value spec_value_def demoted_def base_total_def ace_count_def
      base_value_def)

text \<open>
  Claim C1. For every hand, \<^verbatim>\<open>Hand.get_value\<close> is the sum of the base values of the
  cards (Ace 11, face cards 10, number cards their face value) minus 10 for each demoted
  Ace, where Aces are demoted one at a time while the total is over 21 and an Ace is left:
  the number of demoted Aces is at most the number of Aces, it brings the total to 21 or
  below unless every Ace is demoted, and no smaller number does. A hand with exactly one
  Ace and other cards summing to \<open>s\<close> is worth \<open>s + 11\<close> when that is at most 21 and
  \<open>s + 1\<close> otherwise, and a hand of two Aces is worth 12.
\<close>

theorem get_value_scoring:
  "get_value h = base_total h - 10 * int (demoted h) \<and>
   demoted h \<le> ace_count h \<and>
   (base_total h - 10 * int (demoted h) \<le> 21 \<or> demoted h = ace_count h) \<and>
   (\<forall>j < demoted h. 21 < base_total h - 10 * int j) \<and>
   (ace_count h = 1 \<longrightarrow>
      get_value h =
        (if non_ace_total h + 11 \<le> 21 then non_ace_total h + 11 else non_ace_total h + 1)) \<and>
   (rank c1 = ACE \<and> rank c2 = ACE \<longrightarrow> get_value [c1, c2] = 12)"
  using get_value_spec_value [of h] demoted_le [of h] demoted_enough [of h]
    demoted_needed [of _ h] get_value_one_ace [of h] get_value_two_aces [of c1 c2]
  by (simp add: spec_value_def)

theorem get_value_scoring_witness:
  "ace_count [Card_init SPADES ACE, Card_init HEARTS KING] = 1 \<and>
   get_value [Card_init SPADES ACE, Card_init HEARTS KING] = 21 \<and>
   get_value [Card_init SPADES ACE, Card_init HEARTS ACE] = 12 \<and>
   ace_count [Card_init SPADES ACE, Card_init HEARTS FIVE, Card_init CLUBS KING] = 1 \<and>
   0 < demoted [Card_init SPADES ACE, Card_init HEARTS FIVE, Card_init CLUBS KING] \<and>
   21 < base_total [Card_init SPADES ACE, Card_init HEARTS FIVE, Card_init CLUBS KING] \<and>
   get_value [Card_init SPADES ACE, Card_init HEARTS FIVE, Card_init CLUBS KING] = 16"
  using get_value_scoring [of "[Card_init SPADES ACE, Card_init HEARTS KING]"
      "Card_init SPADES ACE" "Card_init HEARTS ACE"]
    get_value_scoring
      [of "[Card_init SPADES ACE, Card_init HEARTS FIVE, Card_init CLUBS KING]"
        "Card_init SPADES ACE" "Card_init HEARTS ACE"]
  by (simp add: ace_count_def non_ace_total_def base_value_def is_face_def Card_init_def
      demoted_def base_total_def)

section \<open>Dealing\<close>

lemma length_full_set: "length full_set = 52"
  by (simp add: full_set_def all_suits_def all_ranks_def)

lemma distinct_full_set: "distinct full_set"
  by (simp add: full_set_def all_suits_def all_ranks_def)

lemma set_full_set: "set full_set = UNIV"
proof -
  have "x \<in> set full_set" for x :: Card
  proof -
    have x: "x = \<lparr>suit = suit x, rank = rank x\<rparr>"
      by simp
    have "\<lparr>suit = s, rank = r\<rparr> \<in> set full_set" for s r
      by (cases s; cases r) (simp_all add: full_set_def all_suits_def all_ranks_def)
    with x show ?thesis
      by metis
  qed
  then show ?thesis
    by blast
qed

lemma count_fresh: "count (mset (concat (replicate n full_set))) x = n"
proof -
  have one: "count (mset full_set) x = 1"
    using distinct_full_set set_full_set by (simp add: distinct_count_atmost_1)
  show ?thesis
    by (induction n) (simp_all add: one)
qed

lemma is_shuffle_length: "is_shuffle sh \<Longrightarrow> length (fst (sh r xs)) = length xs"
  unfolding is_shuffle_def by (metis size_mset)

lemma is_shuffle_rev: "is_shuffle rev_shuffle"
  by (simp add: is_shuffle_def rev_shuffle_def)

lemma length_fresh: "length (concat (replicate n full_set)) = 52 * n"
  by (induction n) (simp_all add: length_full_set)

lemma reset_cards:
  "cards (reset sh d) = fst (sh (rng d) (concat (replicate (nat (num_decks d)) full_set)))"
  by (simp add: reset_def split: prod.splits)

lemma reset_num_decks: "num_decks (reset sh d) = num_decks d"
  by (simp add: reset_def split: prod.splits)

lemma reset_length:
  "is_shuffle sh \<Longrightarrow> length (cards (reset sh d)) = 52 * nat (num_decks d)"
  by (simp add: reset_cards is_shuffle_length length_fresh)

lemma count_reset:
  assumes "is_shuffle sh"
  shows "count (mset (cards (reset sh d))) x = nat (num_decks d)"
proof -
  have "mset (cards (reset sh d)) = mset (concat (replicate (nat (num_decks d)) full_set))"
    using assms by (simp add: reset_cards is_shuffle_def)
  then show ?thesis
    by (simp add: count_fresh)
qed

lemma deal_card_low:
  assumes "is_shuffle sh" "1 \<le> num_decks d" "length (cards d) < 10"
  shows "deal_card sh d =
    Inr (last (cards (reset sh d)), (reset sh d)\<lparr>cards := butlast (cards (reset sh d))\<rparr>)"
proof -
  have "length (cards (reset sh d)) = 52 * nat (num_decks d)"
    using assms(1) by (rule reset_length)
  with assms(2) have "cards (reset sh d) \<noteq> []"
    by auto
  with assms(3) show ?thesis
    by (simp add: deal_card_def Let_def)
qed

lemma deal_card_high:
  assumes "\<not> length (cards d) < 10"
  shows "deal_card sh d = Inr (last (cards d), d\<lparr>cards := butlast (cards d)\<rparr>)"
proof -
  from assms have "cards d \<noteq> []"
    by auto
  with assms show ?thesis
    by (simp add: deal_card_def Let_def)
qed

lemma deal_card_succeeds:
  assumes "is_shuffle sh" "1 \<le> num_decks d"
  shows "\<exists>c d'. deal_card sh d = Inr (c, d') \<and> num_decks d' = num_decks d \<and>
           9 \<le> length (cards d') \<and>
           (if length (cards d) < 10
            then cards d' @ [c] = fst (sh (rng d) (concat (replicate (nat (num_decks d)) full_set)))
              \<and> length (cards d' @ [c]) = 52 * nat (num_decks d)
              \<and> (\<forall>x. count (mset (cards d' @ [c])) x = nat (num_decks d))
            else cards d' @ [c] = cards d \<and> rng d' = rng d)"
proof (cases "length (cards d) < 10")
  case True
  have len: "length (cards (reset sh d)) = 52 * nat (num_decks d)"
    using assms(1) by (rule reset_length)
  with assms(2) have ne: "cards (reset sh d) \<noteq> []"
    by auto
  from len assms(2) have "9 \<le> length (cards (reset sh d)) - 1"
    by simp
  moreover have app: "butlast (cards (reset sh d)) @ [last (cards (reset sh d))] =
      cards (reset sh d)"
    using ne by simp
  have "\<forall>x. count (mset (butlast (cards (reset sh d)) @
      [last (cards (reset sh d))])) x = nat (num_decks d)"
    unfolding app using assms(1) by (simp add: count_reset)
  then have "\<forall>x. (last (cards (reset sh d)) = x \<longrightarrow>
        Suc (count (mset (butlast (cards (reset sh d)))) x) = nat (num_decks d)) \<and>
      (last (cards (reset sh d)) \<noteq> x \<longrightarrow>
        count (mset (butlast (cards (reset sh d)))) x = nat (num_decks d))"
    by (auto split: if_splits)
  moreover note this
  ultimately show ?thesis
    using True ne len
    by (simp add: deal_card_low [OF assms True] reset_num_decks reset_cards [symmetric])
next
  case False
  then have "cards d \<noteq> []"
    by auto
  with False show ?thesis
    by (simp add: deal_card_high [OF False])
qed

lemma deal_cards_succeeds:
  assumes "is_shuffle sh"
  shows "1 \<le> num_decks d \<Longrightarrow>
    \<exists>cs d'. deal_cards sh d n = Inr (cs, d') \<and> length cs = n \<and> num_decks d' = num_decks d"
proof (induction n arbitrary: d)
  case 0
  then show ?case by simp
next
  case (Suc n)
  from deal_card_succeeds [OF assms Suc.prems] obtain c d1
    where d1: "deal_card sh d = Inr (c, d1)" "num_decks d1 = num_decks d"
    by blast
  with Suc.prems have "1 \<le> num_decks d1"
    by simp
  from Suc.IH [OF this] obtain cs d2
    where "deal_cards sh d1 n = Inr (cs, d2)" "length cs = n" "num_decks d2 = num_decks d1"
    by blast
  with d1 show ?case
    by (simp add: bind_result_def)
qed

text \<open>
  Claim C2. For a deck with \<^verbatim>\<open>num_decks\<close> at least 1, \<^verbatim>\<open>deal_card\<close> never pops
  from an empty list: with fewer than 10 cards left it first rebuilds the list as
  \<^verbatim>\<open>num_decks\<close> full sets of 52 cards and shuffles, then it removes and returns the
  last card. The draw succeeds, the number of cards left is at least 0 (indeed at least
  9), and so does every run of \<open>n\<close> draws in a row. A full set is the 52 different
  cards, every card once, so the rebuilt shoe holds every card \<^verbatim>\<open>num_decks\<close> times.
\<close>

theorem deal_card_never_empty:
  assumes "is_shuffle sh" and "1 \<le> num_decks d"
  shows "(\<exists>c d'. deal_card sh d = Inr (c, d') \<and> num_decks d' = num_decks d \<and>
           0 \<le> length (cards d') \<and> 9 \<le> length (cards d') \<and>
           (if length (cards d) < 10
            then cards d' @ [c] = fst (sh (rng d) (concat (replicate (nat (num_decks d)) full_set)))
              \<and> length (cards d' @ [c]) = 52 * nat (num_decks d)
              \<and> (\<forall>x. count (mset (cards d' @ [c])) x = nat (num_decks d))
            else cards d' @ [c] = cards d \<and> rng d' = rng d)) \<and>
         (\<forall>n. \<exists>cs d'. deal_cards sh d n = Inr (cs, d') \<and> length cs = n \<and>
            num_decks d' = num_decks d) \<and>
         length full_set = 52 \<and> distinct full_set \<and> set full_set = UNIV"
  using deal_card_succeeds [OF assms] deal_cards_succeeds [OF assms]
    length_full_set distinct_full_set set_full_set
  by simp

theorem deal_card_never_empty_witness:
  "is_shuffle rev_shuffle \<and> 1 \<le> num_decks \<lparr>cards = [], num_decks = 1, rng = 0\<rparr> \<and>
   (\<exists>d'. deal_card rev_shuffle \<lparr>cards = [], num_decks = 1, rng = 0\<rparr> =
      Inr (Card_init HEARTS ACE, d') \<and> length (cards d') = 51 \<and>
      count (mset (cards d')) (Card_init SPADES KING) = 1 \<and>
      count (mset (cards d')) (Card_init HEARTS ACE) = 0) \<and>
   (\<exists>cs d'. deal_cards rev_shuffle \<lparr>cards = [], num_decks = 1, rng = 0\<rparr> 60 = Inr (cs, d') \<and>
      length cs = 60)"
proof -
  have h: "1 \<le> num_decks \<lparr>cards = [], num_decks = 1, rng = 0\<rparr>"
    by simp
  note ok = deal_card_never_empty [OF is_shuffle_rev h]
  then have "\<exists>c d'. deal_card rev_shuffle \<lparr>cards = [], num_decks = 1, rng = 0\<rparr> = Inr (c, d') \<and>
      cards d' @ [c] = rev full_set \<and> length (cards d' @ [c]) = 52 \<and>
      (\<forall>x. count (mset (cards d' @ [c])) x = 1)"
    by (simp add: rev_shuffle_def length_full_set del: mset_append) blast
  then obtain c d' where
    d: "deal_card rev_shuffle \<lparr>cards = [], num_decks = 1, rng = 0\<rparr> = Inr (c, d')" and
    cs: "cards d' @ [c] = rev full_set" and len: "length (cards d' @ [c]) = 52" and
    cnt: "\<forall>x. count (mset (cards d' @ [c])) x = 1"
    by blast
  from cs have "c = last (rev full_set)"
    by (metis last_snoc)
  then have c: "c = Card_init HEARTS ACE"
    by (simp add: full_set_def all_suits_def all_ranks_def Card_init_def)
  from cnt have "count (mset (cards d' @ [c])) (Card_init SPADES KING) = 1"
    "count (mset (cards d' @ [c])) (Card_init HEARTS ACE) = 1"
    by blast+
  with c have "count (mset (cards d')) (Card_init SPADES KING) = 1"
    "count (mset (cards d')) (Card_init HEARTS ACE) = 0"
    by (simp_all add: Card_init_def)
  with c d len have first: "\<exists>d'. deal_card rev_shuffle \<lparr>cards = [], num_decks = 1, rng = 0\<rparr> =
      Inr (Card_init HEARTS ACE, d') \<and> length (cards d') = 51 \<and>
      count (mset (cards d')) (Card_init SPADES KING) = 1 \<and>
      count (mset (cards d')) (Card_init HEARTS ACE) = 0"
    by simp
  from ok have "\<exists>cs d'. deal_cards rev_shuffle \<lparr>cards = [], num_decks = 1, rng = 0\<rparr> 60 =
      Inr (cs, d') \<and> length cs = 60"
    by blast
  with first is_shuffle_rev h show ?thesis
    by blast
qed

section \<open>Natural blackjack\<close>

lemma is_blackjack_cards:
  "is_blackjack h \<longleftrightarrow>
     (\<exists>c1 c2. h = [c1, c2] \<and>
        (rank c1 = ACE \<and> base_value c2 = 10 \<or> base_value c1 = 10 \<and> rank c2 = ACE))"
proof
  assume "is_blackjack h"
  then have len: "length h = 2" and v: "get_value h = 21"
    by (simp_all add: is_blackjack_def)
  from len obtain c1 c2 where h: "h = [c1, c2]"
    by (auto simp: length_Suc_conv numeral_2_eq_2)
  have b1: "2 \<le> base_value c1 \<and> base_value c1 \<le> 11" and
    b2: "2 \<le> base_value c2 \<and> base_value c2 \<le> 11"
    by (rule base_value_bounds)+
  have a1: "rank c1 = ACE \<longleftrightarrow> base_value c1 = 11"
    by (cases "rank c1") (simp_all add: base_value_def is_face_def)
  have a2: "rank c2 = ACE \<longleftrightarrow> base_value c2 = 11"
    by (cases "rank c2") (simp_all add: base_value_def is_face_def)
  have "hard_total h \<le> get_value h" "get_value h \<le> base_total h"
    using demoted_le [of h] by (simp_all add: get_value_spec_value spec_value_def hard_total_def)
  show "\<exists>c1 c2. h = [c1, c2] \<and>
        (rank c1 = ACE \<and> base_value c2 = 10 \<or> base_value c1 = 10 \<and> rank c2 = ACE)"
  proof (cases "rank c1 = ACE")
    case True
    note c1 = this
    show ?thesis
    proof (cases "rank c2 = ACE")
      case True
      with c1 v h show ?thesis
        by (simp add: get_value_two_aces)
    next
      case False
      with c1 h have "ace_count h = 1" "non_ace_total h = base_value c2"
        by (simp_all add: ace_count_def non_ace_total_def)
      with v b2 have "base_value c2 = 10"
        by (simp add: get_value_one_ace split: if_splits)
      with c1 h show ?thesis
        by blast
    qed
  next
    case False
    note c1 = this
    show ?thesis
    proof (cases "rank c2 = ACE")
      case True
      with c1 h have "ace_count h = 1" "non_ace_total h = base_value c1"
        by (simp_all add: ace_count_def non_ace_total_def)
      with v b1 have "base_value c1 = 10"
        by (simp add: get_value_one_ace split: if_splits)
      with True h show ?thesis
        by blast
    next
      case False
      with c1 h have "ace_count h = 0"
        by (simp add: ace_count_def)
      then have "get_value h = base_total h"
        by (simp add: get_value_spec_value spec_value_def demoted_def)
      with v h have "base_value c1 + base_value c2 = 21"
        by (simp add: base_total_def)
      with b1 b2 a1 a2 c1 False show ?thesis
        by linarith
    qed
  qed
next
  assume "\<exists>c1 c2. h = [c1, c2] \<and>
        (rank c1 = ACE \<and> base_value c2 = 10 \<or> base_value c1 = 10 \<and> rank c2 = ACE)"
  then obtain c1 c2 where h: "h = [c1, c2]" and
    r: "rank c1 = ACE \<and> base_value c2 = 10 \<or> base_value c1 = 10 \<and> rank c2 = ACE"
    by blast
  from r have "ace_count h = 1 \<and> non_ace_total h = 10"
    unfolding h by (auto simp: ace_count_def non_ace_total_def base_value_def split: if_splits)
  then have "get_value h = 21"
    by (simp add: get_value_one_ace)
  with h show "is_blackjack h"
    by (simp add: is_blackjack_def)
qed

text \<open>
  Claim C7. \<^verbatim>\<open>Hand.is_blackjack\<close> is true exactly when the hand has two cards and its
  value is 21; a hand with another number of cards is not a blackjack whatever its value.
  The hand Ace, 9, Ace has value 21 and is not a blackjack.
\<close>

theorem is_blackjack_two_cards:
  "(is_blackjack h \<longleftrightarrow> length h = 2 \<and> get_value h = 21) \<and>
   (length h \<noteq> 2 \<longrightarrow> \<not> is_blackjack h) \<and>
   get_value [Card_init SPADES ACE, Card_init HEARTS NINE, Card_init CLUBS ACE] = 21 \<and>
   \<not> is_blackjack [Card_init SPADES ACE, Card_init HEARTS NINE, Card_init CLUBS ACE]"
proof -
  have "get_value [Card_init SPADES ACE, Card_init HEARTS NINE, Card_init CLUBS ACE] = 21"
    by (simp add: get_value_spec_value spec_value_def demoted_def base_total_def ace_count_def
        base_value_def is_face_def Card_init_def)
  then show ?thesis
    by (simp add: is_blackjack_def)
qed

theorem is_blackjack_two_cards_witness:
  "length [Card_init SPADES ACE, Card_init CLUBS KING, Card_init HEARTS KING] \<noteq> 2 \<and>
   \<not> is_blackjack [Card_init SPADES ACE, Card_init CLUBS KING, Card_init HEARTS KING] \<and>
   is_blackjack [Card_init SPADES ACE, Card_init HEARTS KING]"
proof -
  have "get_value [Card_init SPADES ACE, Card_init HEARTS KING] = 21"
    by (simp add: get_value_spec_value spec_value_def demoted_def base_total_def ace_count_def
        base_value_def is_face_def Card_init_def)
  then show ?thesis
    using is_blackjack_two_cards
      [of "[Card_init SPADES ACE, Card_init CLUBS KING, Card_init HEARTS KING]"]
      is_blackjack_two_cards [of "[Card_init SPADES ACE, Card_init HEARTS KING]"]
    by simp
qed

section \<open>The dealer\<close>

lemma hard_total_le_get_value: "hard_total h \<le> get_value h"
  using demoted_le [of h] by (simp add: get_value_spec_value spec_value_def hard_total_def)

lemma hard_total_add_card: "hard_total h + 1 \<le> hard_total (add_card h c)"
proof -
  have "hard_total (add_card h c) = hard_total h + (if rank c = ACE then 1 else base_value c)"
    by (simp add: hard_total_def add_card_def base_total_def ace_count_def base_value_def)
  with base_value_bounds [of c] show ?thesis
    by (simp split: if_splits)
qed

lemma hit_dealer_Inr:
  assumes "hit_dealer sh g = Inr g'" "dealer_hand g = Some dh"
  shows "\<exists>c d. deal_card sh (deck g) = Inr (c, d) \<and>
           g' = g\<lparr>deck := d, dealer_hand := Some (add_card dh c)\<rparr>"
  using assms by (auto simp: hit_dealer_def bind_result_def split: sum.splits)

lemma dealer_turn_stand:
  assumes "dealer_hand g = Some dh" "17 \<le> get_value dh"
  shows "dealer_turn sh g = Some (Inr g)"
  using assms by (subst dealer_turn.simps) simp

lemma dealer_turn_hit:
  assumes "dealer_hand g = Some dh" "get_value dh < 17"
  shows "dealer_turn sh g =
    (case hit_dealer sh g of Inl e \<Rightarrow> Some (Inl e) | Inr g' \<Rightarrow> dealer_turn sh g')"
  using assms by (subst dealer_turn.simps) simp

lemma dealer_turn_bounded:
  "dealer_hand g = Some dh \<Longrightarrow> nat (17 - hard_total dh) \<le> n \<Longrightarrow>
   \<exists>r. dealer_turn sh g = Some r \<and>
     (\<forall>g'. r = Inr g' \<longrightarrow>
        (\<exists>dh'. dealer_hand g' = Some dh' \<and> 17 \<le> get_value dh' \<and>
           length dh' \<le> length dh + n \<and>
           player_hand g' = player_hand g \<and> player_balance g' = player_balance g \<and>
           current_bet g' = current_bet g))"
proof (induction n arbitrary: g dh)
  case 0
  then have "17 \<le> hard_total dh"
    by simp
  with hard_total_le_get_value [of dh] have "17 \<le> get_value dh"
    by simp
  with "0.prems"(1) show ?case
    by (simp add: dealer_turn_stand)
next
  case (Suc n)
  show ?case
  proof (cases "get_value dh < 17")
    case False
    with Suc.prems(1) show ?thesis
      by (simp add: dealer_turn_stand)
  next
    case True
    note low = this
    show ?thesis
    proof (cases "hit_dealer sh g")
      case (Inl e)
      with Suc.prems(1) low show ?thesis
        by (simp add: dealer_turn_hit)
    next
      case (Inr g1)
      from hit_dealer_Inr [OF Inr Suc.prems(1)] obtain c d where
        g1: "g1 = g\<lparr>deck := d, dealer_hand := Some (add_card dh c)\<rparr>"
        by blast
      then have dh1: "dealer_hand g1 = Some (add_card dh c)"
        by simp
      have "nat (17 - hard_total (add_card dh c)) \<le> n"
        using hard_total_add_card [of dh c] Suc.prems(2) by linarith
      from Suc.IH [OF dh1 this] obtain r where
        r: "dealer_turn sh g1 = Some r" and
        ex: "\<forall>g'. r = Inr g' \<longrightarrow>
          (\<exists>dh'. dealer_hand g' = Some dh' \<and> 17 \<le> get_value dh' \<and>
             length dh' \<le> length (add_card dh c) + n \<and>
             player_hand g' = player_hand g1 \<and> player_balance g' = player_balance g1 \<and>
             current_bet g' = current_bet g1)"
        by blast
      have "dealer_turn sh g = Some r"
        using Suc.prems(1) low Inr r by (simp add: dealer_turn_hit)
      with ex g1 show ?thesis
        by (simp add: add_card_def)
    qed
  qed
qed

lemma dealer_turn_returns: "\<exists>r. dealer_turn sh g = Some r"
proof (cases "dealer_hand g")
  case None
  then show ?thesis
    by (subst dealer_turn.simps) simp
next
  case (Some dh)
  from dealer_turn_bounded [OF Some order_refl] show ?thesis
    by blast
qed

lemma dealer_turn_exit:
  assumes "dealer_turn sh g = Some (Inr g')"
  shows "\<exists>dh'. dealer_hand g' = Some dh' \<and> 17 \<le> get_value dh' \<and>
           player_hand g' = player_hand g \<and> player_balance g' = player_balance g \<and>
           current_bet g' = current_bet g"
proof (cases "dealer_hand g")
  case None
  then have "dealer_turn sh g = Some (Inl AttributeError)"
    by (subst dealer_turn.simps) simp
  with assms show ?thesis
    by simp
next
  case (Some dh)
  from dealer_turn_bounded [OF Some order_refl, of sh] assms show ?thesis
    by auto
qed

text \<open>
  Claim C10 as stated says that each drawn card increases the value of the hand by at
  least 1. The value can stay the same or go down while the dealer still has to draw:
  a soft 16 that draws a ten is a hard 16, and a soft 16 that draws a nine is a hard 15.
\<close>

theorem get_value_not_increasing:
  "\<not> get_value [Card_init SPADES ACE, Card_init HEARTS FIVE] + 1 \<le>
     get_value (add_card [Card_init SPADES ACE, Card_init HEARTS FIVE] (Card_init CLUBS KING)) \<and>
   get_value (add_card [Card_init SPADES ACE, Card_init HEARTS FIVE] (Card_init CLUBS NINE)) <
     get_value [Card_init SPADES ACE, Card_init HEARTS FIVE] \<and>
   get_value [Card_init SPADES ACE, Card_init HEARTS FIVE] < 17"
  by (simp add: get_value_spec_value spec_value_def demoted_def base_total_def ace_count_def
      base_value_def is_face_def Card_init_def add_card_def)

text \<open>
  Claim C10, amended. \<^verbatim>\<open>dealer_turn\<close> returns for every deck state and dealer hand
  (with the final state or with an exception): each drawn card increases the hard total
  of the hand, which counts every Ace as 1, by at least 1, and the value of a hand is
  never below its hard total, so the loop ends at the latest when the hard total
  reaches 17.
\<close>

theorem dealer_turn_terminates:
  "(\<exists>r. dealer_turn sh g = Some r) \<and>
   hard_total h + 1 \<le> hard_total (add_card h c) \<and>
   hard_total h \<le> get_value h"
  using dealer_turn_returns [of sh g] hard_total_add_card [of h c] hard_total_le_get_value [of h]
  by simp

section \<open>Settlement\<close>

lemmas example_defs =
  example_game_def filler_def shoe_natural_def shoe_bust_def shoe_double_def
  line_10_def line_h_def line_s_def line_d_def line_nan_def Card_init_def

lemmas value_defs =
  get_value_spec_value spec_value_def demoted_def base_total_def ace_count_def
  base_value_def is_face_def is_bust_def is_blackjack_def

lemmas step_defs =
  deal_initial_hands_def hit_player_def hit_dealer_def deal_card_def bind_result_def
  add_card_def Let_def check_initial_blackjack_def determine_winner_def fsub_def fgt_def
  fge_def round64_exact

text \<open>
  Claim C3. At settlement, with both hands present, balance \<open>B\<close> and bet \<open>X\<close>:
  a bust player leaves the balance at \<open>B\<close>, whatever the dealer holds; otherwise a bust
  dealer or a higher player value gives \<open>B + 2X\<close>; a lower player value leaves \<open>B\<close>;
  equal values give \<open>B + X\<close>. Nothing else in the game state changes. The sums and
  the product are those of Python floats.
\<close>

theorem determine_winner_settlement:
  assumes "player_hand g = Some ph" and "dealer_hand g = Some dh"
  shows "determine_winner g =
      Inr (g\<lparr>player_balance :=
        (if is_bust ph then player_balance g
         else if is_bust dh \<or> get_value dh < get_value ph
           then fadd (player_balance g) (fmul (current_bet g) (Fin 2))
         else if get_value ph < get_value dh then player_balance g
         else fadd (player_balance g) (current_bet g))\<rparr>)"
  using assms by (simp add: determine_winner_def Let_def)

theorem determine_winner_settlement_witness:
  "determine_winner
     ((example_game filler)
        \<lparr>player_hand := Some [Card_init SPADES KING, Card_init HEARTS NINE],
         dealer_hand := Some [Card_init CLUBS TEN, Card_init CLUBS EIGHT],
         player_balance := Fin 90, current_bet := Fin 10\<rparr>) =
   Inr ((example_game filler)
        \<lparr>player_hand := Some [Card_init SPADES KING, Card_init HEARTS NINE],
         dealer_hand := Some [Card_init CLUBS TEN, Card_init CLUBS EIGHT],
         player_balance := Fin 110, current_bet := Fin 10\<rparr>)"
  using determine_winner_settlement
    [of "(example_game filler)
        \<lparr>player_hand := Some [Card_init SPADES KING, Card_init HEARTS NINE],
         dealer_hand := Some [Card_init CLUBS TEN, Card_init CLUBS EIGHT],
         player_balance := Fin 90, current_bet := Fin 10\<rparr>"
      "[Card_init SPADES KING, Card_init HEARTS NINE]"
      "[Card_init CLUBS TEN, Card_init CLUBS EIGHT]"]
  by (simp add: example_defs value_defs round64_exact)

section \<open>The round\<close>

lemma deal_initial_hands_Inr:
  assumes "deal_initial_hands sh g0 = Inr g1"
  shows "\<exists>c1 c2 c3 c4. player_hand g1 = Some [c1, c3] \<and> dealer_hand g1 = Some [c2, c4] \<and>
           player_balance g1 = player_balance g0 \<and> current_bet g1 = current_bet g0"
  using assms
  by (auto simp: deal_initial_hands_def hit_player_def hit_dealer_def bind_result_def
      add_card_def split: sum.splits)

text \<open>
  Claim C4. The natural-blackjack check comes right after the initial deal, before any
  line is read for the player's turn. The deal leaves two cards in each hand and does
  not touch the balance or the bet. If both hands are blackjack the bet is added back
  to the balance and the round ends; if only the player's hand is, 2.5 times the bet is
  added and the round ends; if only the dealer's hand is, the round ends with the
  balance as it was after the debit; otherwise the check changes nothing and the round
  goes on with the player's turn on the same state and the same input.
\<close>

theorem natural_blackjack_check:
  assumes "place_bet g ls = Inr (g0, ls0)" and "deal_initial_hands sh g0 = Inr g1"
  shows "\<exists>ph dh. player_hand g1 = Some ph \<and> dealer_hand g1 = Some dh \<and>
      length ph = 2 \<and> length dh = 2 \<and>
      player_balance g1 = player_balance g0 \<and> current_bet g1 = current_bet g0 \<and>
      (if is_blackjack ph \<and> is_blackjack dh then
         play_hand sh g ls =
           Some (Inr (g1\<lparr>player_balance := fadd (player_balance g1) (current_bet g1)\<rparr>, ls0))
       else if is_blackjack ph then
         play_hand sh g ls =
           Some (Inr (g1\<lparr>player_balance :=
                         fadd (player_balance g1) (fmul (current_bet g1) (Fin 2.5))\<rparr>, ls0))
       else if is_blackjack dh then play_hand sh g ls = Some (Inr (g1, ls0))
       else check_initial_blackjack g1 = Inr (g1, False) \<and>
         (\<forall>e. player_turn sh g1 ls0 = Inl e \<longrightarrow> play_hand sh g ls = Some (Inl e)) \<and>
         (\<forall>r. play_hand sh g ls = Some (Inr r) \<longrightarrow>
            (\<exists>g3. player_turn sh g1 ls0 = Inr (g3, snd r))))"
proof -
  from deal_initial_hands_Inr [OF assms(2)] obtain c1 c2 c3 c4 where
    h: "player_hand g1 = Some [c1, c3]" "dealer_hand g1 = Some [c2, c4]"
       "player_balance g1 = player_balance g0" "current_bet g1 = current_bet g0"
    by blast
  have "if is_blackjack [c1, c3] \<and> is_blackjack [c2, c4] then
         play_hand sh g ls =
           Some (Inr (g1\<lparr>player_balance := fadd (player_balance g1) (current_bet g1)\<rparr>, ls0))
       else if is_blackjack [c1, c3] then
         play_hand sh g ls =
           Some (Inr (g1\<lparr>player_balance :=
                         fadd (player_balance g1) (fmul (current_bet g1) (Fin 2.5))\<rparr>, ls0))
       else if is_blackjack [c2, c4] then play_hand sh g ls = Some (Inr (g1, ls0))
       else check_initial_blackjack g1 = Inr (g1, False) \<and>
         (\<forall>e. player_turn sh g1 ls0 = Inl e \<longrightarrow> play_hand sh g ls = Some (Inl e)) \<and>
         (\<forall>r. play_hand sh g ls = Some (Inr r) \<longrightarrow>
            (\<exists>g3. player_turn sh g1 ls0 = Inr (g3, snd r)))"
    using assms h(1,2)
    by (auto simp: play_hand_def check_initial_blackjack_def Let_def bind_result_def
        split: sum.splits option.splits if_splits)
  with h show ?thesis
    by simp
qed

theorem natural_blackjack_check_witness:
  "play_hand rev_shuffle (example_game shoe_natural) [line_10] =
     Some (Inr ((example_game filler)
        \<lparr>player_hand := Some [Card_init SPADES ACE, Card_init HEARTS KING],
         dealer_hand := Some [Card_init DIAMONDS NINE, Card_init CLUBS SEVEN],
         player_balance := Fin 115, current_bet := Fin 10\<rparr>, []))"
proof -
  let ?g0 = "(example_game shoe_natural)\<lparr>player_balance := Fin 90, current_bet := Fin 10\<rparr>"
  let ?g1 = "(example_game filler)
        \<lparr>player_hand := Some [Card_init SPADES ACE, Card_init HEARTS KING],
         dealer_hand := Some [Card_init DIAMONDS NINE, Card_init CLUBS SEVEN],
         player_balance := Fin 90, current_bet := Fin 10\<rparr>"
  have bet: "place_bet (example_game shoe_natural) [line_10] = Inr (?g0, [])"
    by (simp add: example_defs step_defs)
  have deal: "deal_initial_hands rev_shuffle ?g0 = Inr ?g1"
    by (simp add: example_defs step_defs)
  have bj: "is_blackjack [Card_init SPADES ACE, Card_init HEARTS KING]"
    "\<not> is_blackjack [Card_init DIAMONDS NINE, Card_init CLUBS SEVEN]"
    by (simp_all add: example_defs value_defs)
  from natural_blackjack_check [OF bet deal] bj show ?thesis
    by (simp add: example_game_def round64_exact)
qed

section \<open>The player's turn\<close>

lemma player_turn_prompt:
  assumes "player_hand g = Some ph" and "dealer_hand g = Some dh" and "\<not> is_bust ph"
  shows "player_turn sh g (l # rest) =
    (if as_upper l = ''H'' then
       bind_result (hit_player sh g) (\<lambda>g'. player_turn sh g' rest)
     else if as_upper l = ''S'' then Inr (g, rest)
     else if as_upper l = ''D'' then
       if length ph = 2 \<and> fge (player_balance g) (current_bet g) then
         bind_result
           (hit_player sh
              (g\<lparr>player_balance := fsub (player_balance g) (current_bet g),
                 current_bet := fmul (current_bet g) (Fin 2)\<rparr>))
           (\<lambda>g'. Inr (g', rest))
       else player_turn sh g rest
     else player_turn sh g rest)"
  using assms by (subst player_turn.simps) simp

lemma player_turn_bust:
  assumes "player_hand g = Some ph" and "dealer_hand g = Some dh" and "is_bust ph"
  shows "player_turn sh g ls = Inr (g, ls)"
  using assms by (subst player_turn.simps) simp

lemma player_turn_invalid_choice:
  assumes "player_hand g = Some ph" and "dealer_hand g = Some dh" and "\<not> is_bust ph"
    and "as_upper l \<noteq> ''H''" and "as_upper l \<noteq> ''S''" and "as_upper l \<noteq> ''D''"
  shows "player_turn sh g (l # rest) = player_turn sh g rest"
  using assms by (simp add: player_turn_prompt)

lemma hit_player_succeeds:
  assumes "player_hand g = Some ph" and "is_shuffle sh" and "1 \<le> num_decks (deck g)"
  shows "\<exists>c d. deal_card sh (deck g) = Inr (c, d) \<and> num_decks d = num_decks (deck g) \<and>
           hit_player sh g = Inr (g\<lparr>deck := d, player_hand := Some (ph @ [c])\<rparr>)"
proof -
  from deal_card_succeeds [OF assms(2,3)] obtain c d where
    "deal_card sh (deck g) = Inr (c, d)" "num_decks d = num_decks (deck g)"
    by blast
  with assms(1) show ?thesis
    by (simp add: hit_player_def bind_result_def add_card_def)
qed

text \<open>
  Claim C5. When the prompt is reached (the hand is not bust) and the answer is D, the
  double down is accepted exactly when the hand has two cards and the balance is at
  least the bet. Accepted, it takes the bet from the balance once more, doubles the bet,
  adds one card to the player's hand and ends the turn, whatever the new hand is worth.
  Rejected, the turn goes on with the next line and the same state.
\<close>

theorem double_down_rule:
  assumes "player_hand g = Some ph" and "dealer_hand g = Some dh" and "\<not> is_bust ph"
    and "as_upper l = ''D''" and "is_shuffle sh" and "1 \<le> num_decks (deck g)"
  shows "if length ph = 2 \<and> fge (player_balance g) (current_bet g)
    then \<exists>c d. deal_card sh (deck g) = Inr (c, d) \<and>
      player_turn sh g (l # rest) =
        Inr (g\<lparr>player_balance := fsub (player_balance g) (current_bet g),
               current_bet := fmul (current_bet g) (Fin 2),
               deck := d, player_hand := Some (ph @ [c])\<rparr>, rest)
    else player_turn sh g (l # rest) = player_turn sh g rest"
proof (cases "length ph = 2 \<and> fge (player_balance g) (current_bet g)")
  case True
  let ?g = "g\<lparr>player_balance := fsub (player_balance g) (current_bet g),
               current_bet := fmul (current_bet g) (Fin 2)\<rparr>"
  have "player_hand ?g = Some ph" "1 \<le> num_decks (deck ?g)"
    using assms(1,6) by simp_all
  from hit_player_succeeds [OF this(1) assms(5) this(2)] obtain c d where
    "deal_card sh (deck g) = Inr (c, d)"
    "hit_player sh ?g = Inr (?g\<lparr>deck := d, player_hand := Some (ph @ [c])\<rparr>)"
    by auto
  with True assms(1-4) show ?thesis
    by (simp add: player_turn_prompt bind_result_def)
next
  case False
  have "player_turn sh g (l # rest) =
    (if length ph = 2 \<and> fge (player_balance g) (current_bet g) then
       bind_result
         (hit_player sh
            (g\<lparr>player_balance := fsub (player_balance g) (current_bet g),
               current_bet := fmul (current_bet g) (Fin 2)\<rparr>))
         (\<lambda>g'. Inr (g', rest))
     else player_turn sh g rest)"
    using assms(1-4) by (simp add: player_turn_prompt)
  with False show ?thesis
    by auto
qed

theorem double_down_rule_witness:
  "player_turn rev_shuffle
     ((example_game (filler @ [Card_init DIAMONDS TEN]))
        \<lparr>player_hand := Some [Card_init HEARTS FIVE, Card_init SPADES SIX],
         dealer_hand := Some [Card_init CLUBS TEN, Card_init CLUBS SIX],
         player_balance := Fin 90, current_bet := Fin 10\<rparr>) [line_d, line_h] =
   Inr ((example_game filler)
        \<lparr>player_hand :=
           Some [Card_init HEARTS FIVE, Card_init SPADES SIX, Card_init DIAMONDS TEN],
         dealer_hand := Some [Card_init CLUBS TEN, Card_init CLUBS SIX],
         player_balance := Fin 80, current_bet := Fin 20\<rparr>, [line_h]) \<and>
   player_turn rev_shuffle
     ((example_game (filler @ [Card_init DIAMONDS TEN]))
        \<lparr>player_hand := Some [Card_init HEARTS FIVE, Card_init SPADES SIX],
         dealer_hand := Some [Card_init CLUBS TEN, Card_init CLUBS SIX],
         player_balance := Fin 5, current_bet := Fin 10\<rparr>) [line_d, line_s] =
   Inr ((example_game (filler @ [Card_init DIAMONDS TEN]))
        \<lparr>player_hand := Some [Card_init HEARTS FIVE, Card_init SPADES SIX],
         dealer_hand := Some [Card_init CLUBS TEN, Card_init CLUBS SIX],
         player_balance := Fin 5, current_bet := Fin 10\<rparr>, [])"
proof -
  let ?g = "(example_game (filler @ [Card_init DIAMONDS TEN]))
        \<lparr>player_hand := Some [Card_init HEARTS FIVE, Card_init SPADES SIX],
         dealer_hand := Some [Card_init CLUBS TEN, Card_init CLUBS SIX],
         player_balance := Fin 90, current_bet := Fin 10\<rparr>"
  let ?p = "(example_game (filler @ [Card_init DIAMONDS TEN]))
        \<lparr>player_hand := Some [Card_init HEARTS FIVE, Card_init SPADES SIX],
         dealer_hand := Some [Card_init CLUBS TEN, Card_init CLUBS SIX],
         player_balance := Fin 5, current_bet := Fin 10\<rparr>"
  have ph: "player_hand ?g = Some [Card_init HEARTS FIVE, Card_init SPADES SIX]"
    "player_hand ?p = Some [Card_init HEARTS FIVE, Card_init SPADES SIX]"
    by simp_all
  have dh: "dealer_hand ?g = Some [Card_init CLUBS TEN, Card_init CLUBS SIX]"
    "dealer_hand ?p = Some [Card_init CLUBS TEN, Card_init CLUBS SIX]"
    by simp_all
  have nb: "\<not> is_bust [Card_init HEARTS FIVE, Card_init SPADES SIX]"
    by (simp add: example_defs value_defs)
  have d: "as_upper line_d = ''D''"
    by (simp add: line_d_def)
  have nd: "1 \<le> num_decks (deck ?g)" "1 \<le> num_decks (deck ?p)"
    by (simp_all add: example_game_def)
  have stand: "player_turn rev_shuffle ?p [line_s] = Inr (?p, [])"
    using nb by (simp add: player_turn_prompt [OF ph(2) dh(2)] line_s_def)
  from double_down_rule [OF ph(1) dh(1) nb d is_shuffle_rev nd(1), of "[line_h]"]
  have first: "player_turn rev_shuffle ?g [line_d, line_h] =
    Inr ((example_game filler)
        \<lparr>player_hand :=
           Some [Card_init HEARTS FIVE, Card_init SPADES SIX, Card_init DIAMONDS TEN],
         dealer_hand := Some [Card_init CLUBS TEN, Card_init CLUBS SIX],
         player_balance := Fin 80, current_bet := Fin 20\<rparr>, [line_h])"
    by (simp add: example_game_def filler_def step_defs)
  from double_down_rule [OF ph(2) dh(2) nb d is_shuffle_rev nd(2), of "[line_s]"]
  have "player_turn rev_shuffle ?p [line_d, line_s] = player_turn rev_shuffle ?p [line_s]"
    by (simp add: fge_def)
  with stand first show ?thesis
    by simp
qed

section \<open>The dealer's turn in a round\<close>

text \<open>
  Claim C6. The dealer stands on any value of 17 or more, a soft 17 included: the turn
  returns the state as it is. Below 17 the dealer takes one card and the loop goes on.
  A dealer's turn that returns normally leaves a hand worth at least 17. In a round, a
  bust player goes straight to settlement: the dealer's turn is not run, and otherwise
  it is run before settlement.
\<close>

theorem dealer_turn_rule:
  "(dealer_hand g = Some dh \<and> 17 \<le> get_value dh \<longrightarrow> dealer_turn sh g = Some (Inr g)) \<and>
   (dealer_hand g = Some [Card_init sa ACE, Card_init sb SIX] \<longrightarrow>
      dealer_turn sh g = Some (Inr g)) \<and>
   (dealer_hand g = Some dh \<and> get_value dh < 17 \<longrightarrow>
      dealer_turn sh g =
        (case hit_dealer sh g of Inl e \<Rightarrow> Some (Inl e) | Inr g' \<Rightarrow> dealer_turn sh g')) \<and>
   (dealer_turn sh g = Some (Inr g') \<longrightarrow>
      (\<exists>dh'. dealer_hand g' = Some dh' \<and> 17 \<le> get_value dh')) \<and>
   (place_bet g_start ls = Inr (g_bet, ls_bet) \<and> deal_initial_hands sh g_bet = Inr g_dealt \<and>
    check_initial_blackjack g_dealt = Inr (g_checked, False) \<and>
    player_turn sh g_checked ls_bet = Inr (g_played, ls_played) \<and> player_hand g_played = Some ph \<longrightarrow>
      (if is_bust ph then
         play_hand sh g_start ls = Some (bind_result (determine_winner g_played) (\<lambda>g_drawn. Inr (g_drawn, ls_played)))
       else
         play_hand sh g_start ls =
           (case dealer_turn sh g_played of
              None \<Rightarrow> None
            | Some (Inl e) \<Rightarrow> Some (Inl e)
            | Some (Inr g_drawn) \<Rightarrow>
                Some (bind_result (determine_winner g_drawn) (\<lambda>g_settled. Inr (g_settled, ls_played))))))"
proof -
  have soft: "get_value [Card_init sa ACE, Card_init sb SIX] = 17"
    by (simp add: value_defs Card_init_def)
  have round: "place_bet g_start ls = Inr (g_bet, ls_bet) \<and> deal_initial_hands sh g_bet = Inr g_dealt \<and>
    check_initial_blackjack g_dealt = Inr (g_checked, False) \<and>
    player_turn sh g_checked ls_bet = Inr (g_played, ls_played) \<and> player_hand g_played = Some ph \<longrightarrow>
      (if is_bust ph then
         play_hand sh g_start ls = Some (bind_result (determine_winner g_played) (\<lambda>g_drawn. Inr (g_drawn, ls_played)))
       else
         play_hand sh g_start ls =
           (case dealer_turn sh g_played of
              None \<Rightarrow> None
            | Some (Inl e) \<Rightarrow> Some (Inl e)
            | Some (Inr g_drawn) \<Rightarrow>
                Some (bind_result (determine_winner g_drawn) (\<lambda>g_settled. Inr (g_settled, ls_played)))))"
    by (simp add: play_hand_def)
  have stand: "dealer_hand g = Some dh \<and> 17 \<le> get_value dh \<longrightarrow>
      dealer_turn sh g = Some (Inr g)"
    by (simp add: dealer_turn_stand)
  have soft17: "dealer_hand g = Some [Card_init sa ACE, Card_init sb SIX] \<longrightarrow>
      dealer_turn sh g = Some (Inr g)"
    using soft by (simp add: dealer_turn_stand)
  have hit: "dealer_hand g = Some dh \<and> get_value dh < 17 \<longrightarrow>
      dealer_turn sh g =
        (case hit_dealer sh g of Inl e \<Rightarrow> Some (Inl e) | Inr g' \<Rightarrow> dealer_turn sh g')"
    by (simp add: dealer_turn_hit)
  have exit: "dealer_turn sh g = Some (Inr g') \<longrightarrow>
      (\<exists>dh'. dealer_hand g' = Some dh' \<and> 17 \<le> get_value dh')"
    using dealer_turn_exit [of sh g g'] by blast
  from stand soft17 hit exit round show ?thesis
    by (intro conjI)
qed


theorem dealer_turn_rule_witness:
  "play_hand rev_shuffle (example_game shoe_bust) [line_10, line_h] =
     Some (Inr ((example_game filler)
        \<lparr>player_hand :=
           Some [Card_init SPADES KING, Card_init DIAMONDS NINE, Card_init HEARTS QUEEN],
         dealer_hand := Some [Card_init CLUBS SEVEN, Card_init CLUBS FIVE],
         player_balance := Fin 90, current_bet := Fin 10\<rparr>, [])) \<and>
   dealer_turn rev_shuffle
     ((example_game filler)
        \<lparr>player_hand := Some [Card_init HEARTS FIVE, Card_init SPADES SIX],
         dealer_hand := Some [Card_init CLUBS TEN, Card_init CLUBS SIX]\<rparr>) =
     Some (Inr ((example_game (butlast filler))
        \<lparr>player_hand := Some [Card_init HEARTS FIVE, Card_init SPADES SIX],
         dealer_hand :=
           Some [Card_init CLUBS TEN, Card_init CLUBS SIX, Card_init CLUBS TWO]\<rparr>))"
proof -
  let ?bet = "(example_game shoe_bust)\<lparr>player_balance := Fin 90, current_bet := Fin 10\<rparr>"
  let ?dealt = "(example_game (filler @ [Card_init HEARTS QUEEN]))
        \<lparr>player_hand := Some [Card_init SPADES KING, Card_init DIAMONDS NINE],
         dealer_hand := Some [Card_init CLUBS SEVEN, Card_init CLUBS FIVE],
         player_balance := Fin 90, current_bet := Fin 10\<rparr>"
  let ?ph = "[Card_init SPADES KING, Card_init DIAMONDS NINE, Card_init HEARTS QUEEN]"
  let ?played = "(example_game filler)
        \<lparr>player_hand := Some ?ph,
         dealer_hand := Some [Card_init CLUBS SEVEN, Card_init CLUBS FIVE],
         player_balance := Fin 90, current_bet := Fin 10\<rparr>"
  let ?low = "(example_game filler)
        \<lparr>player_hand := Some [Card_init HEARTS FIVE, Card_init SPADES SIX],
         dealer_hand := Some [Card_init CLUBS TEN, Card_init CLUBS SIX]\<rparr>"
  let ?high = "(example_game (butlast filler))
        \<lparr>player_hand := Some [Card_init HEARTS FIVE, Card_init SPADES SIX],
         dealer_hand :=
           Some [Card_init CLUBS TEN, Card_init CLUBS SIX, Card_init CLUBS TWO]\<rparr>"
  have bet: "place_bet (example_game shoe_bust) [line_10, line_h] = Inr (?bet, [line_h])"
    by (simp add: example_defs step_defs)
  have deal: "deal_initial_hands rev_shuffle ?bet = Inr ?dealt"
    by (simp add: example_defs step_defs)
  have check: "check_initial_blackjack ?dealt = Inr (?dealt, False)"
    by (simp add: example_defs step_defs value_defs)
  have turn: "player_turn rev_shuffle ?dealt [line_h] = Inr (?played, [])"
    by (simp add: example_defs step_defs value_defs player_turn.simps)
  have ph: "player_hand ?played = Some ?ph"
    by simp
  have bust: "is_bust ?ph"
    by (simp add: example_defs value_defs)
  have settle: "determine_winner ?played = Inr ?played"
    by (simp add: example_defs step_defs value_defs)
  have round: "play_hand rev_shuffle (example_game shoe_bust) [line_10, line_h] =
      Some (Inr (?played, []))"
    using dealer_turn_rule [where sh = rev_shuffle and g_start = "example_game shoe_bust"
        and ls = "[line_10, line_h]" and g_bet = ?bet and ls_bet = "[line_h]"
        and g_dealt = ?dealt and g_checked = ?dealt and g_played = ?played
        and ls_played = "[]" and ph = ?ph]
      bet deal check turn ph bust settle
    by (simp add: bind_result_def)
  have dl: "dealer_hand ?low = Some [Card_init CLUBS TEN, Card_init CLUBS SIX]"
    "get_value [Card_init CLUBS TEN, Card_init CLUBS SIX] < 17"
    by (simp_all add: example_defs value_defs)
  have dh: "dealer_hand ?high =
      Some [Card_init CLUBS TEN, Card_init CLUBS SIX, Card_init CLUBS TWO]"
    "17 \<le> get_value [Card_init CLUBS TEN, Card_init CLUBS SIX, Card_init CLUBS TWO]"
    by (simp_all add: example_defs value_defs)
  have draw: "hit_dealer rev_shuffle ?low = Inr ?high"
    by (simp add: example_defs step_defs)
  have "dealer_turn rev_shuffle ?low = dealer_turn rev_shuffle ?high"
    using dealer_turn_rule [where sh = rev_shuffle and g = ?low
        and dh = "[Card_init CLUBS TEN, Card_init CLUBS SIX]"] dl draw
    by simp
  also have "\<dots> = Some (Inr ?high)"
    using dealer_turn_rule [where sh = rev_shuffle and g = ?high
        and dh = "[Card_init CLUBS TEN, Card_init CLUBS SIX, Card_init CLUBS TWO]"] dh
    by simp
  finally show ?thesis
    using round by simp
qed

section \<open>Placing the bet\<close>

lemma place_bet_rejected:
  assumes "as_float l = None \<or>
    (\<exists>bet. as_float l = Some bet \<and> (fle bet (Fin 0) \<or> fgt bet (player_balance g)))"
  shows "place_bet g (l # rest) = place_bet g rest"
  using assms by auto

lemma place_bet_result:
  assumes "place_bet g ls = Inr (g', ls')"
  shows "\<exists>bet. g' = g\<lparr>current_bet := bet, player_balance := fsub (player_balance g) bet\<rparr> \<and>
           \<not> fle bet (Fin 0) \<and> \<not> fgt bet (player_balance g)"
  using assms
proof (induction ls)
  case Nil
  then show ?case by simp
next
  case (Cons l rest)
  then show ?case
    by (auto split: option.splits if_splits)
qed

lemma in_range_unless_nan:
  assumes "\<not> fle bet (Fin 0)" and "\<not> fgt bet (Fin B)" and "bet \<noteq> NaN"
  shows "\<exists>X. bet = Fin X \<and> 0 < X \<and> X \<le> B"
  using assms by (cases bet) (simp_all add: fgt_def)

lemma place_bet_finite:
  assumes "place_bet g ls = Inr (g', ls')" and "player_balance g = Fin B"
    and "current_bet g' \<noteq> NaN"
  shows "\<exists>X. current_bet g' = Fin X \<and> 0 < X \<and> X \<le> B \<and>
           player_balance g' = fsub (Fin B) (Fin X)"
proof -
  from place_bet_result [OF assms(1)] obtain bet where
    g': "g' = g\<lparr>current_bet := bet, player_balance := fsub (player_balance g) bet\<rparr>" and
    r: "\<not> fle bet (Fin 0)" "\<not> fgt bet (player_balance g)"
    by blast
  from g' assms(3) have "bet \<noteq> NaN"
    by simp
  with r assms(2) in_range_unless_nan [of bet B] obtain X where
    "bet = Fin X" "0 < X" "X \<le> B"
    by auto
  with g' assms(2) show ?thesis
    by simp
qed

text \<open>
  Claim C8 says that \<^verbatim>\<open>place_bet\<close> accepts only a bet \<open>X\<close> with \<open>0 < X\<close> and
  \<open>X \<le> balance\<close>. The line \<^verbatim>\<open>nan\<close> is read by \<^verbatim>\<open>float\<close> as a NaN, for which both
  tests of the guard are false: the bet is accepted, and the bet and the balance are NaN
  afterwards.
\<close>

theorem place_bet_accepts_nan:
  "place_bet (BlackjackGame_init sh r (Fin 100)) (line_nan # rest) =
     Inr ((BlackjackGame_init sh r (Fin 100))\<lparr>current_bet := NaN, player_balance := NaN\<rparr>,
          rest) \<and>
   \<not> (flt (Fin 0) NaN \<and> fle NaN (player_balance (BlackjackGame_init sh r (Fin 100))))"
  by (simp add: BlackjackGame_init_def line_nan_def fgt_def fsub_def)

section \<open>The balance\<close>

text \<open>
  Claim C9 says that the balance stays at or above 0. A round played with the bet
  \<^verbatim>\<open>nan\<close> starts from the balance 100 and ends with the balance NaN, which is not at
  or above 0: the player stands on 11, the dealer draws to 26 and the winnings are added
  to a balance that is already NaN.
\<close>

theorem balance_nan_after_round:
  "fge (player_balance (example_game shoe_double)) (Fin 0) \<and>
   play_hand rev_shuffle (example_game shoe_double) [line_nan, line_s] =
     Some (Inr ((example_game filler)
        \<lparr>player_hand := Some [Card_init HEARTS FIVE, Card_init SPADES SIX],
         dealer_hand :=
           Some [Card_init CLUBS TEN, Card_init CLUBS SIX, Card_init DIAMONDS TEN],
         player_balance := NaN, current_bet := NaN\<rparr>, [])) \<and>
   \<not> fge NaN (Fin 0)"
proof -
  let ?bet = "(example_game shoe_double)\<lparr>player_balance := NaN, current_bet := NaN\<rparr>"
  let ?dealt = "(example_game (filler @ [Card_init DIAMONDS TEN]))
        \<lparr>player_hand := Some [Card_init HEARTS FIVE, Card_init SPADES SIX],
         dealer_hand := Some [Card_init CLUBS TEN, Card_init CLUBS SIX],
         player_balance := NaN, current_bet := NaN\<rparr>"
  let ?drawn = "(example_game filler)
        \<lparr>player_hand := Some [Card_init HEARTS FIVE, Card_init SPADES SIX],
         dealer_hand :=
           Some [Card_init CLUBS TEN, Card_init CLUBS SIX, Card_init DIAMONDS TEN],
         player_balance := NaN, current_bet := NaN\<rparr>"
  have bet: "place_bet (example_game shoe_double) [line_nan, line_s] = Inr (?bet, [line_s])"
    by (simp add: example_defs step_defs)
  have deal: "deal_initial_hands rev_shuffle ?bet = Inr ?dealt"
    by (simp add: example_defs step_defs)
  have check: "check_initial_blackjack ?dealt = Inr (?dealt, False)"
    by (simp add: example_defs step_defs value_defs)
  have turn: "player_turn rev_shuffle ?dealt [line_s] = Inr (?dealt, [])"
    by (simp add: example_defs step_defs value_defs player_turn.simps)
  have nb: "\<not> is_bust [Card_init HEARTS FIVE, Card_init SPADES SIX]"
    by (simp add: example_defs value_defs)
  have low: "get_value [Card_init CLUBS TEN, Card_init CLUBS SIX] < 17"
    and high: "17 \<le> get_value
      [Card_init CLUBS TEN, Card_init CLUBS SIX, Card_init DIAMONDS TEN]"
    by (simp_all add: example_defs value_defs)
  have draw: "hit_dealer rev_shuffle ?dealt = Inr ?drawn"
    by (simp add: example_defs step_defs)
  have "dealer_turn rev_shuffle ?dealt = dealer_turn rev_shuffle ?drawn"
    using dealer_turn_hit [of ?dealt _ rev_shuffle, OF _ low] draw by simp
  also have "\<dots> = Some (Inr ?drawn)"
    using dealer_turn_stand [of ?drawn _ rev_shuffle, OF _ high] by simp
  finally have dealer: "dealer_turn rev_shuffle ?dealt = Some (Inr ?drawn)" .
  have settle: "determine_winner ?drawn = Inr ?drawn"
    by (simp add: example_defs step_defs value_defs)
  have "play_hand rev_shuffle (example_game shoe_double) [line_nan, line_s] =
      Some (Inr (?drawn, []))"
    unfolding play_hand_def bet sum.case prod.case deal check if_False turn
    using nb by (simp add: dealer settle bind_result_def)
  then show ?thesis
    by (simp add: example_game_def fge_def)
qed

text \<open>
  With finite amounts the balance stays at or above 0: a debit of at most the balance,
  and a credit of a bet that is at or above 0, round to a value at or above 0 (or to
  infinity).
\<close>

lemma fsub_nonneg:
  assumes "X \<le> B"
  shows "fge (fsub (Fin B) (Fin X)) (Fin 0)"
  using round64_nonneg [of "B - X"] assms by (auto simp: fge_def fsub_def)

lemma fadd_nonneg:
  assumes "0 \<le> B" and "y = PInf \<or> (\<exists>z. 0 \<le> z \<and> y = Fin z)"
  shows "fge (fadd (Fin B) y) (Fin 0)"
proof -
  have "0 \<le> z \<Longrightarrow> fge (round64 (B + z)) (Fin 0)" for z
    using round64_nonneg [of "B + z"] assms(1) by (auto simp: fge_def)
  with assms(2) show ?thesis
    by (auto simp: fge_def)
qed

lemma place_bet_keeps_balance_nonneg:
  assumes "place_bet g ls = Inr (g', ls')" and "player_balance g = Fin B" and "0 \<le> B"
    and "current_bet g' \<noteq> NaN"
  shows "fge (player_balance g') (Fin 0) \<and> fgt (current_bet g') (Fin 0)"
  using place_bet_finite [OF assms(1,2,4)] fsub_nonneg by (auto simp: fgt_def)

lemma double_down_keeps_balance_nonneg:
  assumes "fge (Fin B) (Fin X)"
  shows "fge (fsub (Fin B) (Fin X)) (Fin 0)"
proof -
  from assms have "X \<le> B"
    by (simp add: fge_def)
  then show ?thesis
    by (rule fsub_nonneg)
qed

lemma settlement_keeps_balance_nonneg:
  assumes "0 \<le> B" and "0 \<le> X"
  shows "fge (fadd (Fin B) (fmul (Fin X) (Fin 2))) (Fin 0) \<and>
         fge (fadd (Fin B) (fmul (Fin X) (Fin 2.5))) (Fin 0) \<and>
         fge (fadd (Fin B) (Fin X)) (Fin 0)"
proof -
  have "fge (fadd (Fin B) (round64 (X * 2))) (Fin 0)"
    using assms by (intro fadd_nonneg round64_nonneg) simp_all
  moreover have "fge (fadd (Fin B) (round64 (X * 2.5))) (Fin 0)"
    using assms by (intro fadd_nonneg round64_nonneg) simp_all
  moreover have "fge (fadd (Fin B) (Fin X)) (Fin 0)"
    using assms by (intro fadd_nonneg) simp_all
  ultimately show ?thesis
    by simp
qed

end
